theory Spec2Isabelle
  imports Main
begin

section \<open>The recovery-code login form (MFARecovery.tsx)\<close>

text \<open>
  The component is a React function component.  Its own code consists of a validation
  schema, the two callbacks given to \<open>useMutation\<close>, one mount effect and the submit
  handler; everything else is the behaviour of the hooks it calls.  The model keeps the
  component's code as functions on an explicit component state and drives them by the events
  the hooks deliver: an edit or blur of the input, a submit of the form, and the settling of
  the promise of one verifier call.
\<close>

subsection \<open>What the component imports\<close>

text \<open>
  The translated messages \<open>LL.form.error.required()\<close> and \<open>LL.form.error.invalidCode()\<close>
  and the helper \<open>trimObjectStrings\<close> are not among the sources; they are parameters.
\<close>

record RecoveryLoginRequest =
  code :: string

record messages =
  required :: string
  invalidCode :: string

record env =
  LL :: messages
  trimObjectStrings :: "RecoveryLoginRequest \<Rightarrow> RecoveryLoginRequest"

subsection \<open>The form field \<open>code\<close> (react-hook-form)\<close>

record code_field =
  fvalue :: string
  defaultValue :: string
  ferror :: "string option"
  isDirty :: bool
  isTouched :: bool

text \<open>\<open>z.object({ code: z.string().min(1, LL.form.error.required()) })\<close>: the left
  injection carries the message of the failed check.\<close>

definition zodSchema :: "messages \<Rightarrow> RecoveryLoginRequest \<Rightarrow> string + RecoveryLoginRequest" where
  "zodSchema ll values =
     (if length (code values) < 1 then Inl (required ll) else Inr values)"

text \<open>\<open>useForm({ resolver, defaultValues: { code: '' }, mode: 'all' })\<close>.\<close>

definition useForm :: code_field where
  "useForm = \<lparr>fvalue = [], defaultValue = [], ferror = None, isDirty = False, isTouched = False\<rparr>"

record reset_options =
  optDefaultValue :: "string option"
  keepDirty :: bool
  keepError :: bool
  keepTouched :: bool

text \<open>\<open>resetField(name, options)\<close>: the field goes back to its default value, or to the
  default value given in the options, which then becomes the field's default; each of the
  three flags of the field is kept when the matching option says so and cleared otherwise.\<close>

definition resetField :: "reset_options \<Rightarrow> code_field \<Rightarrow> code_field" where
  "resetField opts f =
     (let dv = (case optDefaultValue opts of Some v \<Rightarrow> v | None \<Rightarrow> defaultValue f)
      in \<lparr>fvalue = dv,
          defaultValue = dv,
          ferror = (if keepError opts then ferror f else None),
          isDirty = (if keepDirty opts then isDirty f else False),
          isTouched = (if keepTouched opts then isTouched f else False)\<rparr>)"

definition setError :: "string \<Rightarrow> code_field \<Rightarrow> code_field" where
  "setError msg f = f\<lparr>ferror := Some msg\<rparr>"

text \<open>Validation of the field through the resolver, as \<open>mode: 'all'\<close> runs it on every
  change and blur.\<close>

definition validateField :: "messages \<Rightarrow> code_field \<Rightarrow> code_field" where
  "validateField ll f =
     (case zodSchema ll \<lparr>code = fvalue f\<rparr> of
        Inl msg \<Rightarrow> f\<lparr>ferror := Some msg\<rparr>
      | Inr _ \<Rightarrow> f\<lparr>ferror := None\<rparr>)"

subsection \<open>The component state\<close>

text \<open>
  \<open>calls\<close> lists the arguments of every invocation of the mutation function
  \<open>recovery\<close>, oldest first; \<open>outstanding\<close> holds the positions in \<open>calls\<close> of the
  invocations whose promise has not settled.  \<open>published\<close>, \<open>console\<close> and
  \<open>navigated\<close> log the component's calls of \<open>loginSubject.next\<close>, \<open>console.error\<close>
  and \<open>navigate\<close>.  \<open>mounted\<close> is false once the component has navigated away from its
  own route.
\<close>

record ('d, 'e) component =
  mounted :: bool
  codeField :: code_field
  calls :: "RecoveryLoginRequest list"
  outstanding :: "nat list"
  published :: "'d list"
  console :: "'e list"
  navigated :: "string list"

text \<open>\<open>isPending\<close> of \<open>useMutation\<close>: the hook's observer follows the mutation started
  last.\<close>

definition isPending :: "('d, 'e) component \<Rightarrow> bool" where
  "isPending s = (calls s \<noteq> [] \<and> length (calls s) - 1 \<in> set (outstanding s))"

definition mutate :: "RecoveryLoginRequest \<Rightarrow> ('d, 'e) component \<Rightarrow> ('d, 'e) component" where
  "mutate variables s =
     s\<lparr>calls := calls s @ [variables], outstanding := outstanding s @ [length (calls s)]\<rparr>"

definition navigate :: "string \<Rightarrow> ('d, 'e) component \<Rightarrow> ('d, 'e) component" where
  "navigate to s = s\<lparr>navigated := navigated s @ [to], mounted := False\<rparr>"

subsection \<open>The component's own code\<close>

text \<open>\<open>onSuccess: (data) => loginSubject.next(data)\<close>\<close>

definition onSuccess :: "'d \<Rightarrow> ('d, 'e) component \<Rightarrow> ('d, 'e) component" where
  "onSuccess data s = s\<lparr>published := published s @ [data]\<rparr>"

text \<open>\<open>onError\<close>: \<open>resetField('code', {defaultValue: '', keepDirty: true, keepError: true,
  keepTouched: true})\<close>, then \<open>setError('code', {message: LL.form.error.invalidCode()})\<close>,
  then \<open>console.error(err)\<close>.\<close>

definition onError :: "env \<Rightarrow> 'e \<Rightarrow> ('d, 'e) component \<Rightarrow> ('d, 'e) component" where
  "onError ev err s =
     (let f1 = resetField \<lparr>optDefaultValue = Some [], keepDirty = True,
                           keepError = True, keepTouched = True\<rparr> (codeField s);
          f2 = setError (invalidCode (LL ev)) f1
      in s\<lparr>codeField := f2, console := console s @ [err]\<rparr>)"

text \<open>The mount effect: \<open>if (!totpAvailable && !webauthnAvailable && !emailAvailable)
  navigate('../')\<close>.\<close>

definition mountEffect :: "bool \<Rightarrow> bool \<Rightarrow> bool \<Rightarrow> ('d, 'e) component \<Rightarrow> ('d, 'e) component" where
  "mountEffect totpAvailable webauthnAvailable emailAvailable s =
     (if \<not> totpAvailable \<and> \<not> webauthnAvailable \<and> \<not> emailAvailable
      then navigate ''../'' s else s)"

text \<open>\<open>handleValidSubmit = (values) => mutate(trimObjectStrings(values))\<close>\<close>

definition handleValidSubmit ::
  "env \<Rightarrow> RecoveryLoginRequest \<Rightarrow> ('d, 'e) component \<Rightarrow> ('d, 'e) component" where
  "handleValidSubmit ev values s = mutate (trimObjectStrings ev values) s"

text \<open>\<open>handleSubmit(onValid)\<close> of react-hook-form: the resolver runs on the current
  values; with an error the error is stored on the field and \<open>onValid\<close> is not called,
  without one the field's error is cleared and \<open>onValid\<close> receives the values.\<close>

definition handleSubmit ::
  "env \<Rightarrow> (RecoveryLoginRequest \<Rightarrow> ('d, 'e) component \<Rightarrow> ('d, 'e) component)
     \<Rightarrow> ('d, 'e) component \<Rightarrow> ('d, 'e) component" where
  "handleSubmit ev onValid s =
     (case zodSchema (LL ev) \<lparr>code = fvalue (codeField s)\<rparr> of
        Inl msg \<Rightarrow> s\<lparr>codeField := setError msg (codeField s)\<rparr>
      | Inr values \<Rightarrow> onValid values (s\<lparr>codeField := (codeField s)\<lparr>ferror := None\<rparr>\<rparr>))"

subsection \<open>Mounting and events\<close>

definition mount :: "bool \<Rightarrow> bool \<Rightarrow> bool \<Rightarrow> ('d, 'e) component" where
  "mount totpAvailable webauthnAvailable emailAvailable =
     mountEffect totpAvailable webauthnAvailable emailAvailable
       \<lparr>mounted = True, codeField = useForm, calls = [], outstanding = [],
        published = [], console = [], navigated = []\<rparr>"

datatype ('d, 'e) event =
    Change string
  | Blur
  | Submit
  | Resolve nat 'd
  | Reject nat 'e

text \<open>
  The input and the form exist only while the component is mounted.  The promise of a
  verifier call settles once; the callbacks of \<open>useMutation\<close> run for every call that
  settles, whichever call the observer follows by then.
\<close>

fun step :: "env \<Rightarrow> ('d, 'e) event \<Rightarrow> ('d, 'e) component \<Rightarrow> ('d, 'e) component" where
  "step ev (Change v) s =
     (if mounted s
      then s\<lparr>codeField := validateField (LL ev)
               ((codeField s)\<lparr>fvalue := v, isDirty := (v \<noteq> defaultValue (codeField s))\<rparr>)\<rparr>
      else s)"
| "step ev Blur s =
     (if mounted s
      then s\<lparr>codeField := validateField (LL ev) ((codeField s)\<lparr>isTouched := True\<rparr>)\<rparr>
      else s)"
| "step ev Submit s =
     (if mounted s then handleSubmit ev (handleValidSubmit ev) s else s)"
| "step ev (Resolve i data) s =
     (if i \<in> set (outstanding s)
      then onSuccess data (s\<lparr>outstanding := remove1 i (outstanding s)\<rparr>)
      else s)"
| "step ev (Reject i err) s =
     (if i \<in> set (outstanding s)
      then onError ev err (s\<lparr>outstanding := remove1 i (outstanding s)\<rparr>)
      else s)"

fun run :: "env \<Rightarrow> ('d, 'e) event list \<Rightarrow> ('d, 'e) component \<Rightarrow> ('d, 'e) component" where
  "run ev [] s = s"
| "run ev (e # es) s = run ev es (step ev e s)"

subsection \<open>Scenarios\<close>

text \<open>
  One submission the verifier rejects: the user types \<open>c\<close>, submits the form, and the
  promise of the call this submit started is rejected with \<open>err\<close>.  The call started by
  the submit is the one at position \<open>length (calls s)\<close>.
\<close>

definition rejectedSubmission ::
  "env \<Rightarrow> string \<Rightarrow> 'e \<Rightarrow> ('d, 'e) component \<Rightarrow> ('d, 'e) component" where
  "rejectedSubmission ev c err s = run ev [Change c, Submit, Reject (length (calls s)) err] s"

text \<open>Consecutive rejected submissions of the same code, one per element of the list of
  the verifier's reasons.\<close>

fun rejectedSubmissions ::
  "env \<Rightarrow> string \<Rightarrow> 'e list \<Rightarrow> ('d, 'e) component \<Rightarrow> ('d, 'e) component" where
  "rejectedSubmissions ev c [] s = s"
| "rejectedSubmissions ev c (err # errs) s =
     rejectedSubmissions ev c errs (rejectedSubmission ev c err s)"

text \<open>Every verifier call is outstanding, was accepted (and published) or was rejected
  (and logged).\<close>

definition accounted :: "('d, 'e) component \<Rightarrow> bool" where
  "accounted s =
     (length (published s) + length (console s) + length (outstanding s) = length (calls s))"

text \<open>
  Modelled from the spec: the reasons with which the recovery verifier answers a code it
  does not accept (section 6, \<open>verifyRecovery\<close>, and the taxonomy of section 7).  The API
  client \<open>useApi().auth.mfa.recovery\<close> is not among the sources; the component receives
  its rejection as an opaque \<open>err\<close>.
\<close>

datatype recovery_error = AlreadyUsed | Invalid | LockedOut | VerifierUnavailable

text \<open>A sample of the parameters, for closed instances: two messages, and a
  \<open>trimObjectStrings\<close> that strips blanks at both ends of the code.\<close>

definition stripBlanks :: "string \<Rightarrow> string" where
  "stripBlanks v = rev (dropWhile (\<lambda>c. c = CHR '' '') (rev (dropWhile (\<lambda>c. c = CHR '' '') v)))"

definition sampleEnv :: env where
  "sampleEnv =
     \<lparr>LL = \<lparr>required = ''Field is required'', invalidCode = ''Enter a valid code''\<rparr>,
      trimObjectStrings = (\<lambda>values. \<lparr>code = stripBlanks (code values)\<rparr>)\<rparr>"

text \<open>The component as mounted when TOTP is available, with session data and verifier
  errors of concrete types, for closed instances.\<close>

definition started :: "(nat, recovery_error) component" where
  "started = mount True False False"

section \<open>The auth store (useAuthStore)\<close>

text \<open>
  The store is a zustand store wrapped in the \<open>persist\<close> middleware.  Its state is a
  JavaScript object, modelled as a map from property names to values; a property that is
  present with the value \<open>undefined\<close> maps to \<open>Some Undefined\<close>.  A \<open>Subject\<close> is an
  object with identity: the state holds a reference into a heap of subjects, each with the
  list of its observers.
\<close>

datatype 'u jsval =
    Undefined
  | UserVal 'u
  | ParamsVal "(string \<times> string) list"
  | SubjectRef nat
  | FunVal string
  | StringVal string
  | PlainObject

type_synonym 'u obj = "string \<rightharpoonup> 'u jsval"

record ('u, 'd) browser =
  state :: "'u obj"
  subjects :: "nat list list"
  received :: "(nat \<times> 'd) list"
  sessionStorage :: "string \<rightharpoonup> 'u obj"

text \<open>lodash \<open>pick(object, paths)\<close>: the object made of the listed properties that
  \<open>object\<close> has.\<close>

definition pick :: "'u obj \<Rightarrow> string list \<Rightarrow> 'u obj" where
  "pick object paths = (\<lambda>k. if k \<in> set paths then object k else None)"

text \<open>\<open>partialize: (store) => pick(store, ['user', 'authLocation'])\<close>\<close>

definition partialize :: "'u obj \<Rightarrow> 'u obj" where
  "partialize store = pick store [''user'', ''authLocation'']"

text \<open>\<open>createJSONStorage\<close>: what \<open>JSON.parse(JSON.stringify(object))\<close> gives back.
  Properties holding \<open>undefined\<close> or a function are left out; an instance of a class comes
  back as a plain object.\<close>

definition throughJSON :: "'u obj \<Rightarrow> 'u obj" where
  "throughJSON object =
     (\<lambda>k. case object k of
             None \<Rightarrow> None
           | Some Undefined \<Rightarrow> None
           | Some (FunVal f) \<Rightarrow> None
           | Some (SubjectRef r) \<Rightarrow> Some PlainObject
           | Some (ParamsVal p) \<Rightarrow> Some PlainObject
           | Some v \<Rightarrow> Some v)"

text \<open>The write of the \<open>persist\<close> middleware, under \<open>name: 'auth-store'\<close>.\<close>

definition setItem :: "('u, 'd) browser \<Rightarrow> ('u, 'd) browser" where
  "setItem b =
     b\<lparr>sessionStorage := (sessionStorage b)(''auth-store'' \<mapsto> throughJSON (partialize (state b)))\<rparr>"

text \<open>\<open>set(partial)\<close> as the state creator receives it: zustand merges the partial state
  into the current one (\<open>Object.assign({}, state, partial)\<close>), and \<open>persist\<close> writes the
  storage after every \<open>set\<close>.\<close>

definition set_state :: "'u obj \<Rightarrow> ('u, 'd) browser \<Rightarrow> ('u, 'd) browser" where
  "set_state partial b = setItem (b\<lparr>state := state b ++ partial\<rparr>)"

text \<open>\<open>setState: (newState) => set({ ...get(), ...newState })\<close>\<close>

definition setState :: "'u obj \<Rightarrow> ('u, 'd) browser \<Rightarrow> ('u, 'd) browser" where
  "setState newState b = set_state (state b ++ newState) b"

text \<open>\<open>resetState: () => set({ user: undefined, openIdParams: undefined })\<close>\<close>

definition resetState :: "('u, 'd) browser \<Rightarrow> ('u, 'd) browser" where
  "resetState b = set_state [''user'' \<mapsto> Undefined, ''openIdParams'' \<mapsto> Undefined] b"

text \<open>The state creator, run once per page load; \<open>new Subject()\<close> takes the next free
  place of the heap, with no observer.\<close>

definition initialState :: "nat \<Rightarrow> 'u obj" where
  "initialState r =
     [''user'' \<mapsto> Undefined,
      ''openIdParams'' \<mapsto> Undefined,
      ''loginSubject'' \<mapsto> SubjectRef r,
      ''setState'' \<mapsto> FunVal ''setState'',
      ''resetState'' \<mapsto> FunVal ''resetState'']"

text \<open>
  A page load creates the store and hydrates it: the stored object, when there is one, is
  merged over the created state (\<open>{ ...currentState, ...persistedState }\<close>).  Nothing of
  the JavaScript heap of an earlier load is reachable from the new state; sessionStorage is
  what survives.
\<close>

definition pageLoad :: "('u, 'd) browser \<Rightarrow> ('u, 'd) browser" where
  "pageLoad b =
     (let r = length (subjects b);
          created = initialState r;
          hydrated = (case sessionStorage b ''auth-store'' of
                        None \<Rightarrow> created
                      | Some persisted \<Rightarrow> created ++ persisted)
      in b\<lparr>state := hydrated, subjects := subjects b @ [[]]\<rparr>)"

definition firstLoad :: "('u, 'd) browser" where
  "firstLoad =
     pageLoad \<lparr>state = Map.empty, subjects = [], received = [], sessionStorage = Map.empty\<rparr>"

text \<open>\<open>state.loginSubject.subscribe(observer)\<close> and \<open>state.loginSubject.next(data)\<close>;
  \<open>None\<close> is the TypeError of a \<open>loginSubject\<close> that is not a Subject.  \<open>next\<close>
  hands the value to every observer of the subject, in the order of subscription.\<close>

definition loginSubject :: "('u, 'd) browser \<Rightarrow> nat option" where
  "loginSubject b =
     (case state b ''loginSubject'' of
        Some (SubjectRef r) \<Rightarrow> (if r < length (subjects b) then Some r else None)
      | _ \<Rightarrow> None)"

definition subscribe :: "nat \<Rightarrow> ('u, 'd) browser \<Rightarrow> ('u, 'd) browser option" where
  "subscribe observer b =
     (case loginSubject b of
        None \<Rightarrow> None
      | Some r \<Rightarrow> Some (b\<lparr>subjects := (subjects b)[r := subjects b ! r @ [observer]]\<rparr>))"

definition next_value :: "'d \<Rightarrow> ('u, 'd) browser \<Rightarrow> ('u, 'd) browser option" where
  "next_value data b =
     (case loginSubject b of
        None \<Rightarrow> None
      | Some r \<Rightarrow> Some (b\<lparr>received := received b @ map (\<lambda>observer. (observer, data)) (subjects b ! r)\<rparr>))"

text \<open>What a page can do with the store between two loads; an operation that throws
  leaves everything as it was.\<close>

datatype ('u, 'd) store_op =
    SetState "'u obj"
  | ResetState
  | Subscribe nat
  | Next 'd
  | Reload

fun apply_op :: "('u, 'd) store_op \<Rightarrow> ('u, 'd) browser \<Rightarrow> ('u, 'd) browser" where
  "apply_op (SetState newState) b = setState newState b"
| "apply_op ResetState b = resetState b"
| "apply_op (Subscribe observer) b = (case subscribe observer b of None \<Rightarrow> b | Some b' \<Rightarrow> b')"
| "apply_op (Next data) b = (case next_value data b of None \<Rightarrow> b | Some b' \<Rightarrow> b')"
| "apply_op Reload b = pageLoad b"

fun apply_ops :: "('u, 'd) store_op list \<Rightarrow> ('u, 'd) browser \<Rightarrow> ('u, 'd) browser" where
  "apply_ops [] b = b"
| "apply_ops (x # xs) b = apply_ops xs (apply_op x b)"

text \<open>The stored object holds nothing but what \<open>partialize\<close> lets through.\<close>

definition storedKeys :: "('u, 'd) browser \<Rightarrow> string set" where
  "storedKeys b = (case sessionStorage b ''auth-store'' of None \<Rightarrow> {} | Some persisted \<Rightarrow> dom persisted)"

section \<open>Properties of the recovery-code form\<close>

lemma zodSchema_empty: "zodSchema ll \<lparr>code = []\<rparr> = Inl (required ll)"
  by (simp add: zodSchema_def)

lemma zodSchema_nonempty: "c \<noteq> [] \<Longrightarrow> zodSchema ll \<lparr>code = c\<rparr> = Inr \<lparr>code = c\<rparr>"
  by (cases c) (simp_all add: zodSchema_def)

lemma step_Submit_invalid:
  "mounted s \<Longrightarrow> fvalue (codeField s) = [] \<Longrightarrow>
   step ev Submit s = s\<lparr>codeField := setError (required (LL ev)) (codeField s)\<rparr>"
  by (simp add: handleSubmit_def zodSchema_empty)

lemma step_Submit_valid:
  "mounted s \<Longrightarrow> fvalue (codeField s) \<noteq> [] \<Longrightarrow>
   step ev Submit s =
     mutate (trimObjectStrings ev \<lparr>code = fvalue (codeField s)\<rparr>)
       (s\<lparr>codeField := (codeField s)\<lparr>ferror := None\<rparr>\<rparr>)"
  by (simp add: handleSubmit_def handleValidSubmit_def zodSchema_nonempty)

lemma calls_step:
  "calls (step ev e s) =
     (if e = Submit \<and> mounted s \<and> fvalue (codeField s) \<noteq> []
      then calls s @ [trimObjectStrings ev \<lparr>code = fvalue (codeField s)\<rparr>]
      else calls s)"
proof (cases e)
  case Submit
  then show ?thesis
    by (cases "fvalue (codeField s) = []")
       (simp_all add: handleSubmit_def handleValidSubmit_def mutate_def
          zodSchema_empty zodSchema_nonempty)
qed (simp_all add: onSuccess_def onError_def Let_def)

lemmas component_defs =
  mount_def mountEffect_def navigate_def useForm_def validateField_def zodSchema_def
  handleSubmit_def handleValidSubmit_def mutate_def onSuccess_def onError_def
  resetField_def setError_def isPending_def sampleEnv_def stripBlanks_def
  rejectedSubmission_def started_def Let_def

text \<open>
  Claim C5.  A submit of the form whose code is the empty string fails validation: the
  field receives the \<open>required\<close> message, and the verifier is not called, no call becomes
  outstanding and nothing is published.  Conversely an event that adds a verifier call is a
  submit of a mounted form whose code is not empty.
\<close>

theorem C5_empty_code_no_round_trip:
  "(mounted s \<and> fvalue (codeField s) = [] \<longrightarrow>
      ferror (codeField (step ev Submit s)) = Some (required (LL ev)) \<and>
      calls (step ev Submit s) = calls s \<and>
      outstanding (step ev Submit s) = outstanding s \<and>
      isPending (step ev Submit s) = isPending s \<and>
      published (step ev Submit s) = published s) \<and>
   (calls (step ev e s) \<noteq> calls s \<longrightarrow>
      e = Submit \<and> mounted s \<and> fvalue (codeField s) \<noteq> [])"
proof (intro conjI impI)
  assume a: "mounted s \<and> fvalue (codeField s) = []"
  then have st: "step ev Submit s = s\<lparr>codeField := setError (required (LL ev)) (codeField s)\<rparr>"
    using step_Submit_invalid by blast
  show "ferror (codeField (step ev Submit s)) = Some (required (LL ev))"
    unfolding st by (simp add: setError_def)
  show "calls (step ev Submit s) = calls s" unfolding st by simp
  show "outstanding (step ev Submit s) = outstanding s" unfolding st by simp
  show "isPending (step ev Submit s) = isPending s" unfolding st by (simp add: isPending_def)
  show "published (step ev Submit s) = published s" unfolding st by simp
next
  assume c: "calls (step ev e s) \<noteq> calls s"
  then have "e = Submit \<and> mounted s \<and> fvalue (codeField s) \<noteq> []"
    by (simp add: calls_step split: if_splits)
  then show "e = Submit" and "mounted s" and "fvalue (codeField s) \<noteq> []" by simp_all
qed


theorem C5_empty_code_no_round_trip_witness:
  "mounted (mount True False False :: (nat, recovery_error) component) \<and>
   fvalue (codeField (mount True False False :: (nat, recovery_error) component)) = [] \<and>
   ferror (codeField (step sampleEnv Submit (mount True False False :: (nat, recovery_error) component)))
     = Some ''Field is required'' \<and>
   calls (step sampleEnv Submit (mount True False False :: (nat, recovery_error) component)) = [] \<and>
   calls (step sampleEnv Submit
            (step sampleEnv (Change ''K7Q2'') (mount True False False :: (nat, recovery_error) component)))
     \<noteq> calls (step sampleEnv (Change ''K7Q2'') (mount True False False :: (nat, recovery_error) component)) \<and>
   fvalue (codeField (step sampleEnv (Change ''K7Q2'')
            (mount True False False :: (nat, recovery_error) component))) \<noteq> []"
  using C5_empty_code_no_round_trip
          [of "mount True False False :: (nat, recovery_error) component" sampleEnv]
        C5_empty_code_no_round_trip
          [of "step sampleEnv (Change ''K7Q2'') (mount True False False :: (nat, recovery_error) component)"
              sampleEnv Submit]
  by (simp add: component_defs)


subsection \<open>Single steps\<close>

lemma step_Change_nonempty:
  "mounted s \<Longrightarrow> c \<noteq> [] \<Longrightarrow>
   step ev (Change c) s =
     s\<lparr>codeField := (codeField s)\<lparr>fvalue := c, isDirty := (c \<noteq> defaultValue (codeField s)),
                                   ferror := None\<rparr>\<rparr>"
  by (simp add: validateField_def zodSchema_nonempty)

lemma step_Reject_outstanding:
  "i \<in> set (outstanding s) \<Longrightarrow>
   step ev (Reject i err) s =
     s\<lparr>outstanding := remove1 i (outstanding s),
       codeField := \<lparr>fvalue = [], defaultValue = [], ferror = Some (invalidCode (LL ev)),
                     isDirty = isDirty (codeField s), isTouched = isTouched (codeField s)\<rparr>,
       console := console s @ [err]\<rparr>"
  by (simp add: onError_def resetField_def setError_def)

lemma published_step:
  "published (step ev x s) =
     (case x of
        Resolve i d \<Rightarrow> if i \<in> set (outstanding s) then published s @ [d] else published s
      | _ \<Rightarrow> published s)"
proof (cases x)
  case Submit
  then show ?thesis
    by (cases "fvalue (codeField s) = []")
       (simp_all add: handleSubmit_def handleValidSubmit_def mutate_def
          zodSchema_empty zodSchema_nonempty)
qed (simp_all add: onSuccess_def onError_def Let_def)

lemma submit_forwarded:
  assumes "mounted s" and "c \<noteq> []"
  shows "calls (run ev [Change c, Submit] s) = calls s @ [trimObjectStrings ev \<lparr>code = c\<rparr>]"
    and "isPending (run ev [Change c, Submit] s)"
    and "mounted (run ev [Change c, Submit] s)"
proof -
  let ?s1 = "step ev (Change c) s"
  have s1: "?s1 = s\<lparr>codeField := (codeField s)\<lparr>fvalue := c,
              isDirty := (c \<noteq> defaultValue (codeField s)), ferror := None\<rparr>\<rparr>"
    using assms by (rule step_Change_nonempty)
  have m1: "mounted ?s1" and v1: "fvalue (codeField ?s1) \<noteq> []"
    unfolding s1 using assms by simp_all
  have s2: "step ev Submit ?s1 =
      mutate (trimObjectStrings ev \<lparr>code = fvalue (codeField ?s1)\<rparr>)
        (?s1\<lparr>codeField := (codeField ?s1)\<lparr>ferror := None\<rparr>\<rparr>)"
    using m1 v1 by (rule step_Submit_valid)
  have r: "run ev [Change c, Submit] s = step ev Submit ?s1" by simp
  show "calls (run ev [Change c, Submit] s) = calls s @ [trimObjectStrings ev \<lparr>code = c\<rparr>]"
    unfolding r s2 unfolding s1 by (simp add: mutate_def)
  show "isPending (run ev [Change c, Submit] s)"
    unfolding r s2 unfolding s1 by (simp add: mutate_def isPending_def)
  show "mounted (run ev [Change c, Submit] s)"
    unfolding r s2 unfolding s1 using assms by (simp add: mutate_def)
qed

subsection \<open>A rejected submission\<close>

lemma rejectedSubmission_eq:
  assumes "mounted s" and "c \<noteq> []"
  shows "rejectedSubmission ev c err s =
     s\<lparr>codeField := \<lparr>fvalue = [], defaultValue = [], ferror = Some (invalidCode (LL ev)),
                     isDirty = (c \<noteq> defaultValue (codeField s)),
                     isTouched = isTouched (codeField s)\<rparr>,
       calls := calls s @ [trimObjectStrings ev \<lparr>code = c\<rparr>],
       outstanding := remove1 (length (calls s)) (outstanding s @ [length (calls s)]),
       console := console s @ [err]\<rparr>"
proof -
  let ?s1 = "step ev (Change c) s"
  have s1: "?s1 = s\<lparr>codeField := (codeField s)\<lparr>fvalue := c,
              isDirty := (c \<noteq> defaultValue (codeField s)), ferror := None\<rparr>\<rparr>"
    using assms by (rule step_Change_nonempty)
  have m1: "mounted ?s1" and v1: "fvalue (codeField ?s1) \<noteq> []"
    unfolding s1 using assms by simp_all
  let ?s2 = "step ev Submit ?s1"
  have s2: "?s2 =
      mutate (trimObjectStrings ev \<lparr>code = fvalue (codeField ?s1)\<rparr>)
        (?s1\<lparr>codeField := (codeField ?s1)\<lparr>ferror := None\<rparr>\<rparr>)"
    using m1 v1 by (rule step_Submit_valid)
  have o2: "length (calls s) \<in> set (outstanding ?s2)"
    unfolding s2 unfolding s1 by (simp add: mutate_def)
  have r: "rejectedSubmission ev c err s = step ev (Reject (length (calls s)) err) ?s2"
    by (simp add: rejectedSubmission_def)
  show ?thesis
    unfolding r step_Reject_outstanding [OF o2] unfolding s2 unfolding s1
    by (simp add: mutate_def)
qed

lemma rejectedSubmissions_mounted:
  "mounted s \<Longrightarrow> c \<noteq> [] \<Longrightarrow> mounted (rejectedSubmissions ev c errs s)"
  by (induction errs arbitrary: s) (simp_all add: rejectedSubmission_eq)

lemma rejectedSubmissions_published:
  "mounted s \<Longrightarrow> c \<noteq> [] \<Longrightarrow> published (rejectedSubmissions ev c errs s) = published s"
  by (induction errs arbitrary: s) (simp_all add: rejectedSubmission_eq)

lemma rejectedSubmissions_console:
  "mounted s \<Longrightarrow> c \<noteq> [] \<Longrightarrow> console (rejectedSubmissions ev c errs s) = console s @ errs"
  by (induction errs arbitrary: s) (simp_all add: rejectedSubmission_eq)

lemma rejectedSubmissions_calls:
  "mounted s \<Longrightarrow> c \<noteq> [] \<Longrightarrow>
   calls (rejectedSubmissions ev c errs s)
     = calls s @ replicate (length errs) (trimObjectStrings ev \<lparr>code = c\<rparr>)"
  by (induction errs arbitrary: s)
     (simp_all add: rejectedSubmission_eq replicate_append_same)

lemma rejectedSubmissions_field:
  "mounted s \<Longrightarrow> c \<noteq> [] \<Longrightarrow> errs \<noteq> [] \<Longrightarrow>
   fvalue (codeField (rejectedSubmissions ev c errs s)) = [] \<and>
   ferror (codeField (rejectedSubmissions ev c errs s)) = Some (invalidCode (LL ev))"
proof (induction errs arbitrary: s)
  case Nil
  then show ?case by simp
next
  case (Cons err errs)
  show ?case
  proof (cases "errs = []")
    case True
    with Cons.prems show ?thesis by (simp add: rejectedSubmission_eq)
  next
    case False
    have "mounted (rejectedSubmission ev c err s)"
      using Cons.prems by (simp add: rejectedSubmission_eq)
    from Cons.IH [OF this Cons.prems(2) False] show ?thesis by simp
  qed
qed

lemma codeField_rejectedSubmission:
  "mounted s \<Longrightarrow> c \<noteq> [] \<Longrightarrow>
   codeField (rejectedSubmission ev c err s) =
     \<lparr>fvalue = [], defaultValue = [], ferror = Some (invalidCode (LL ev)),
      isDirty = (c \<noteq> defaultValue (codeField s)), isTouched = isTouched (codeField s)\<rparr>"
  by (simp add: rejectedSubmission_eq)

lemma rejectedSubmissions_codeField:
  "mounted s \<Longrightarrow> c \<noteq> [] \<Longrightarrow> defaultValue (codeField s) = [] \<Longrightarrow> errs \<noteq> [] \<Longrightarrow>
   codeField (rejectedSubmissions ev c errs s) =
     \<lparr>fvalue = [], defaultValue = [], ferror = Some (invalidCode (LL ev)),
      isDirty = True, isTouched = isTouched (codeField s)\<rparr>"
proof (induction errs arbitrary: s)
  case Nil
  then show ?case by simp
next
  case (Cons err errs)
  let ?s1 = "rejectedSubmission ev c err s"
  have f1: "codeField ?s1 =
     \<lparr>fvalue = [], defaultValue = [], ferror = Some (invalidCode (LL ev)),
      isDirty = True, isTouched = isTouched (codeField s)\<rparr>"
    using Cons.prems by (simp add: codeField_rejectedSubmission)
  show ?case
  proof (cases "errs = []")
    case True
    with f1 show ?thesis by simp
  next
    case False
    have m1: "mounted ?s1"
      using Cons.prems by (simp add: rejectedSubmission_eq)
    have d1: "defaultValue (codeField ?s1) = []"
      unfolding f1 by simp
    have "codeField (rejectedSubmissions ev c errs ?s1) =
       \<lparr>fvalue = [], defaultValue = [], ferror = Some (invalidCode (LL ev)),
        isDirty = True, isTouched = isTouched (codeField ?s1)\<rparr>"
      using m1 Cons.prems(2) d1 False by (rule Cons.IH)
    then show ?thesis unfolding f1 by simp
  qed
qed

subsection \<open>Accounting of the verifier calls\<close>

lemma Suc_length_remove1: "i \<in> set xs \<Longrightarrow> Suc (length (remove1 i xs)) = length xs"
  using length_pos_if_in_set [of i xs] by (simp add: length_remove1)

lemma accounted_step: "accounted s \<Longrightarrow> accounted (step ev x s)"
proof (cases x)
  case Submit
  assume "accounted s"
  then show ?thesis using Submit
    by (cases "fvalue (codeField s) = []")
       (simp_all add: accounted_def handleSubmit_def handleValidSubmit_def mutate_def
          zodSchema_empty zodSchema_nonempty)
next
  case (Resolve i d)
  assume a: "accounted s"
  show ?thesis
  proof (cases "i \<in> set (outstanding s)")
    case True
    from Suc_length_remove1 [OF True] a show ?thesis
      using Resolve True by (simp add: accounted_def onSuccess_def)
  next
    case False
    with a Resolve show ?thesis by simp
  qed
next
  case (Reject i err)
  assume a: "accounted s"
  show ?thesis
  proof (cases "i \<in> set (outstanding s)")
    case True
    from Suc_length_remove1 [OF True] a show ?thesis
      using Reject True by (simp add: accounted_def onError_def Let_def)
  next
    case False
    with a Reject show ?thesis by simp
  qed
qed (simp_all add: accounted_def)

lemma accounted_run: "accounted s \<Longrightarrow> accounted (run ev events s)"
  by (induction events arbitrary: s) (simp_all add: accounted_step)

lemma accounted_mount: "accounted (mount t w e)"
  by (simp add: accounted_def mount_def mountEffect_def navigate_def)

lemma unmounted_idle_step:
  "\<not> mounted s \<Longrightarrow> outstanding s = [] \<Longrightarrow> step ev x s = s"
  by (cases x) simp_all

lemma unmounted_idle_run:
  "\<not> mounted s \<Longrightarrow> outstanding s = [] \<Longrightarrow> run ev events s = s"
  by (induction events arbitrary: s) (simp_all add: unmounted_idle_step)

section \<open>The claims about the recovery-code form\<close>

text \<open>
  Claim C1, as stated: for one login attempt \<open>loginSubject.next\<close> is invoked at most once,
  and a second publication is impossible after the first.  The component publishes in
  \<open>onSuccess\<close> with no guard, once for every verifier call that is accepted: two accepted
  submissions of one mounted component publish twice, whether the second is submitted
  after the first has settled or while it is still in flight.
\<close>

theorem C1_two_publications_counterexample:
  "\<not> length (published (run sampleEnv
        [Change ''A1B2'', Submit, Resolve 0 10, Change ''C3D4'', Submit, Resolve 1 11]
        started)) \<le> 1 \<and>
   \<not> length (published (run sampleEnv
        [Change ''A1B2'', Submit, Change ''C3D4'', Submit, Resolve 0 10, Resolve 1 11]
        started)) \<le> 1"
  by (simp add: component_defs)

text \<open>
  Claim C1, amended: \<open>loginSubject.next\<close> is invoked exactly once for every verifier call
  that is accepted and by nothing else.  In every state the component reaches after being
  mounted, the publications, the logged rejections and the outstanding calls add up to the
  verifier calls made; the acceptance of an outstanding call appends its data to the
  publications, and an event that changes the publications is such an acceptance.
\<close>

theorem C1_one_publication_per_accepted_call:
  "length (published (run ev events (mount t w e)))
     + length (console (run ev events (mount t w e)))
     + length (outstanding (run ev events (mount t w e)))
     = length (calls (run ev events (mount t w e))) \<and>
   (i \<in> set (outstanding s) \<longrightarrow> published (step ev (Resolve i d) s) = published s @ [d]) \<and>
   (published (step ev x s) \<noteq> published s \<longrightarrow>
      (\<exists>j d'. x = Resolve j d' \<and> j \<in> set (outstanding s) \<and>
               published (step ev x s) = published s @ [d']))"
proof (intro conjI impI)
  have "accounted (run ev events (mount t w e))"
    by (rule accounted_run) (rule accounted_mount)
  then show "length (published (run ev events (mount t w e)))
     + length (console (run ev events (mount t w e)))
     + length (outstanding (run ev events (mount t w e)))
     = length (calls (run ev events (mount t w e)))"
    by (simp add: accounted_def)
next
  assume "i \<in> set (outstanding s)"
  then show "published (step ev (Resolve i d) s) = published s @ [d]"
    unfolding published_step by simp
next
  assume "published (step ev x s) \<noteq> published s"
  then show "\<exists>j d'. x = Resolve j d' \<and> j \<in> set (outstanding s) \<and>
               published (step ev x s) = published s @ [d']"
    unfolding published_step by (cases x) (auto split: if_splits)
qed

theorem C1_one_publication_per_accepted_call_witness:
  "0 \<in> set (outstanding (run sampleEnv [Change ''A1B2'', Submit] started)) \<and>
   published (step sampleEnv (Resolve 0 10) (run sampleEnv [Change ''A1B2'', Submit] started)) = [10] \<and>
   length (published (run sampleEnv
       [Change ''A1B2'', Submit, Reject 0 Invalid, Change ''C3D4'', Submit, Resolve 1 (10::nat)]
       (mount True False False :: (nat, recovery_error) component))) = 1 \<and>
   length (published (run sampleEnv
       [Change ''A1B2'', Submit, Reject 0 Invalid, Change ''C3D4'', Submit, Resolve 1 (10::nat)]
       (mount True False False :: (nat, recovery_error) component)))
     + length (console (run sampleEnv
       [Change ''A1B2'', Submit, Reject 0 Invalid, Change ''C3D4'', Submit, Resolve 1 (10::nat)]
       (mount True False False :: (nat, recovery_error) component)))
     + length (outstanding (run sampleEnv
       [Change ''A1B2'', Submit, Reject 0 Invalid, Change ''C3D4'', Submit, Resolve 1 (10::nat)]
       (mount True False False :: (nat, recovery_error) component)))
     = length (calls (run sampleEnv
       [Change ''A1B2'', Submit, Reject 0 Invalid, Change ''C3D4'', Submit, Resolve 1 (10::nat)]
       (mount True False False :: (nat, recovery_error) component)))"
proof -
  have o: "0 \<in> set (outstanding (run sampleEnv [Change ''A1B2'', Submit] started))"
    by (simp add: component_defs)
  have p: "published (run sampleEnv [Change ''A1B2'', Submit] started) = []"
    by (simp add: component_defs)
  have n: "length (published (run sampleEnv
       [Change ''A1B2'', Submit, Reject 0 Invalid, Change ''C3D4'', Submit, Resolve 1 (10::nat)]
       (mount True False False :: (nat, recovery_error) component))) = 1"
    by (simp add: component_defs)
  note T = C1_one_publication_per_accepted_call
          [of sampleEnv
              "[Change ''A1B2'', Submit, Reject 0 Invalid, Change ''C3D4'', Submit, Resolve 1 (10::nat)]"
              True False False 0 "run sampleEnv [Change ''A1B2'', Submit] started" 10 "Resolve 0 10"]
  from T o have "published (step sampleEnv (Resolve 0 10)
        (run sampleEnv [Change ''A1B2'', Submit] started))
      = published (run sampleEnv [Change ''A1B2'', Submit] started) @ [10]"
    by blast
  with p have q: "published (step sampleEnv (Resolve 0 10)
        (run sampleEnv [Change ''A1B2'', Submit] started)) = [10]"
    by simp
  from T o q n show ?thesis by blast
qed

text \<open>
  Claim C2, as stated: a replayed recovery code is rejected with a reason that tells
  ``already used'' apart.  \<open>onError\<close> does not look at the error: after a code was accepted
  once, its replay rejected as already used and its replay rejected as invalid leave the
  same field, with the one message \<open>invalidCode\<close>, and the same publications.
\<close>

theorem C2_same_message_counterexample:
  "codeField (run sampleEnv
       [Change ''K7Q2'', Submit, Resolve 0 10, Change ''K7Q2'', Submit, Reject 1 AlreadyUsed] started)
     = codeField (run sampleEnv
       [Change ''K7Q2'', Submit, Resolve 0 10, Change ''K7Q2'', Submit, Reject 1 Invalid] started) \<and>
   ferror (codeField (run sampleEnv
       [Change ''K7Q2'', Submit, Resolve 0 10, Change ''K7Q2'', Submit, Reject 1 AlreadyUsed] started))
     = Some (invalidCode (LL sampleEnv)) \<and>
   published (run sampleEnv
       [Change ''K7Q2'', Submit, Resolve 0 10, Change ''K7Q2'', Submit, Reject 1 AlreadyUsed] started)
     = published (run sampleEnv
       [Change ''K7Q2'', Submit, Resolve 0 10, Change ''K7Q2'', Submit, Reject 1 Invalid] started)"
  by (simp add: component_defs)

text \<open>
  Claim C2, amended: every submission of a code that the verifier rejects, for whatever
  reason and however often it is repeated, publishes nothing and leaves the field empty
  with the one message \<open>invalidCode\<close>; the verifier's reasons only reach the console.
\<close>

theorem C2_rejected_replay_never_publishes:
  assumes "mounted s" and "c \<noteq> []" and "errs \<noteq> []"
  shows "published (rejectedSubmissions ev c errs s) = published s \<and>
         fvalue (codeField (rejectedSubmissions ev c errs s)) = [] \<and>
         ferror (codeField (rejectedSubmissions ev c errs s)) = Some (invalidCode (LL ev)) \<and>
         console (rejectedSubmissions ev c errs s) = console s @ errs"
  using assms rejectedSubmissions_published [of s c ev errs]
    rejectedSubmissions_field [of s c errs ev] rejectedSubmissions_console [of s c ev errs]
  by simp

theorem C2_rejected_replay_never_publishes_witness:
  "mounted (run sampleEnv [Change ''K7Q2'', Submit, Resolve 0 10] started) \<and>
   ''K7Q2'' \<noteq> [] \<and> [AlreadyUsed, AlreadyUsed, AlreadyUsed] \<noteq> [] \<and>
   published (rejectedSubmissions sampleEnv ''K7Q2'' [AlreadyUsed, AlreadyUsed, AlreadyUsed]
       (run sampleEnv [Change ''K7Q2'', Submit, Resolve 0 10] started)) = [10] \<and>
   ferror (codeField (rejectedSubmissions sampleEnv ''K7Q2'' [AlreadyUsed, AlreadyUsed, AlreadyUsed]
       (run sampleEnv [Change ''K7Q2'', Submit, Resolve 0 10] started))) = Some ''Enter a valid code''"
proof -
  have m: "mounted (run sampleEnv [Change ''K7Q2'', Submit, Resolve 0 10] started)"
    by (simp add: component_defs)
  have p: "published (run sampleEnv [Change ''K7Q2'', Submit, Resolve 0 10] started) = [10]"
    by (simp add: component_defs)
  have c: "''K7Q2'' \<noteq> []" and e: "[AlreadyUsed, AlreadyUsed, AlreadyUsed] \<noteq> []"
    by simp_all
  from C2_rejected_replay_never_publishes [OF m c e, of sampleEnv] m p show ?thesis
    by (simp add: sampleEnv_def)
qed

text \<open>
  Claim C3.  Mounted with no TOTP, no security key and no email code available, the
  component navigates to \<open>../\<close> in its mount effect and leaves its route.  Whatever events
  follow, it stays as the mount left it: no verifier call is made and no call is pending.
\<close>

theorem C3_no_capability_reroutes:
  "navigated (mount False False False :: ('d, 'e) component) = [''../''] \<and>
   \<not> mounted (mount False False False :: ('d, 'e) component) \<and>
   run ev events (mount False False False :: ('d, 'e) component) = mount False False False \<and>
   calls (run ev events (mount False False False :: ('d, 'e) component)) = [] \<and>
   \<not> isPending (run ev events (mount False False False :: ('d, 'e) component))"
proof -
  have u: "\<not> mounted (mount False False False :: ('d, 'e) component)"
    and o: "outstanding (mount False False False :: ('d, 'e) component) = []"
    by (simp_all add: mount_def mountEffect_def navigate_def)
  have r: "run ev events (mount False False False :: ('d, 'e) component) = mount False False False"
    using u o by (rule unmounted_idle_run)
  show ?thesis
    unfolding r by (simp add: mount_def mountEffect_def navigate_def isPending_def)
qed

theorem C3_no_capability_reroutes_witness:
  "navigated (mount False False False :: (nat, recovery_error) component) = [''../''] \<and>
   calls (run sampleEnv [Change ''K7Q2'', Submit, Submit, Resolve 0 10]
            (mount False False False :: (nat, recovery_error) component)) = [] \<and>
   \<not> isPending (run sampleEnv [Change ''K7Q2'', Submit, Submit, Resolve 0 10]
            (mount False False False :: (nat, recovery_error) component))"
  using C3_no_capability_reroutes
          [where ev = sampleEnv
             and events = "[Change ''K7Q2'', Submit, Submit, Resolve 0 (10::nat)] :: (nat, recovery_error) event list"]
  by blast

text \<open>
  Claim C4.  When the verifier rejects an outstanding call, \<open>onError\<close> leaves the value of
  the field empty and its error set to the message \<open>invalidCode\<close>; the error is not empty
  as the translation of \<open>invalidCode\<close> is not.  In particular a non-empty code that was
  submitted and rejected is not in the field afterwards.
\<close>

theorem C4_failed_clears_value_keeps_error:
  assumes "i \<in> set (outstanding s)" and "invalidCode (LL ev) \<noteq> []"
  shows "fvalue (codeField (step ev (Reject i err) s)) = [] \<and>
         (\<exists>m. ferror (codeField (step ev (Reject i err) s)) = Some m \<and> m \<noteq> [] \<and>
              m = invalidCode (LL ev)) \<and>
         (mounted s' \<and> c \<noteq> [] \<longrightarrow>
            fvalue (codeField (rejectedSubmission ev c err s')) = [] \<and>
            fvalue (codeField (rejectedSubmission ev c err s')) \<noteq> c \<and>
            ferror (codeField (rejectedSubmission ev c err s')) = Some (invalidCode (LL ev)))"
proof (intro conjI impI)
  show "fvalue (codeField (step ev (Reject i err) s)) = []"
    unfolding step_Reject_outstanding [OF assms(1)] by simp
  show "\<exists>m. ferror (codeField (step ev (Reject i err) s)) = Some m \<and> m \<noteq> [] \<and>
              m = invalidCode (LL ev)"
    unfolding step_Reject_outstanding [OF assms(1)] using assms(2) by simp
next
  assume a: "mounted s' \<and> c \<noteq> []"
  then have m: "mounted s'" and c: "c \<noteq> []" by simp_all
  note eq = rejectedSubmission_eq [OF m c, of ev err]
  show "fvalue (codeField (rejectedSubmission ev c err s')) = []"
    unfolding eq by simp
  show "fvalue (codeField (rejectedSubmission ev c err s')) \<noteq> c"
    unfolding eq using c by simp
  show "ferror (codeField (rejectedSubmission ev c err s')) = Some (invalidCode (LL ev))"
    unfolding eq by simp
qed

theorem C4_failed_clears_value_keeps_error_witness:
  "0 \<in> set (outstanding (run sampleEnv [Change ''K7Q2'', Submit] started)) \<and>
   invalidCode (LL sampleEnv) \<noteq> [] \<and>
   fvalue (codeField (run sampleEnv [Change ''K7Q2'', Submit] started)) = ''K7Q2'' \<and>
   fvalue (codeField (step sampleEnv (Reject 0 Invalid)
             (run sampleEnv [Change ''K7Q2'', Submit] started))) = [] \<and>
   ferror (codeField (step sampleEnv (Reject 0 Invalid)
             (run sampleEnv [Change ''K7Q2'', Submit] started))) = Some ''Enter a valid code'' \<and>
   mounted started \<and> ''K7Q2'' \<noteq> [] \<and>
   fvalue (codeField (rejectedSubmission sampleEnv ''K7Q2'' Invalid started)) = []"
proof -
  have o: "0 \<in> set (outstanding (run sampleEnv [Change ''K7Q2'', Submit] started))"
    by (simp add: component_defs)
  have i: "invalidCode (LL sampleEnv) \<noteq> []" and i': "invalidCode (LL sampleEnv) = ''Enter a valid code''"
    by (simp_all add: sampleEnv_def)
  have v: "fvalue (codeField (run sampleEnv [Change ''K7Q2'', Submit] started)) = ''K7Q2''"
    by (simp add: component_defs)
  have m: "mounted started" by (simp add: component_defs)
  have c: "''K7Q2'' \<noteq> []" by simp
  note T = C4_failed_clears_value_keeps_error
          [OF o i, of Invalid started "''K7Q2''"]
  from T m c o i v show ?thesis unfolding i' by blast
qed

text \<open>
  Claim C6, as stated: with a ceiling of \<open>N\<close> the \<open>N\<close>th consecutive rejection locks the
  factor out.  The component counts nothing: with the ceiling 5 of the spec's example, the
  fifth rejection leaves the field exactly as the first did, the component is still mounted,
  and a sixth submission goes to the verifier like any other.
\<close>

theorem C6_fifth_rejection_counterexample:
  "codeField (rejectedSubmissions sampleEnv ''K7Q2'' [Invalid, Invalid, Invalid, Invalid, Invalid] started)
     = codeField (rejectedSubmissions sampleEnv ''K7Q2'' [Invalid] started) \<and>
   mounted (rejectedSubmissions sampleEnv ''K7Q2'' [Invalid, Invalid, Invalid, Invalid, Invalid] started) \<and>
   length (calls (rejectedSubmissions sampleEnv ''K7Q2'' [Invalid, Invalid, Invalid, Invalid, Invalid] started))
     = 5 \<and>
   length (calls (run sampleEnv [Change ''K7Q2'', Submit]
      (rejectedSubmissions sampleEnv ''K7Q2'' [Invalid, Invalid, Invalid, Invalid, Invalid] started)))
     = 6 \<and>
   isPending (run sampleEnv [Change ''K7Q2'', Submit]
      (rejectedSubmissions sampleEnv ''K7Q2'' [Invalid, Invalid, Invalid, Invalid, Invalid] started))"
  by (simp add: component_defs)

text \<open>
  Claim C6, amended: the component keeps no count of rejections and has no locked-out
  state.  After any number of consecutive rejections, whatever the verifier's reasons (its
  lockout signal included), every one of the submissions has reached the verifier, the
  component is still mounted, and a further non-empty submission is forwarded to the
  verifier and becomes the pending call.  After one rejection or more the field is empty
  and carries the message \<open>invalidCode\<close>; when the field's default value is the empty
  string, as it is from mounting on, the whole field is as a single rejection would have
  left it.
\<close>

theorem C6_rejections_never_lock_the_form:
  assumes "mounted s" and "c \<noteq> []" and "c' \<noteq> []"
  shows "mounted (rejectedSubmissions ev c errs s) \<and>
         calls (rejectedSubmissions ev c errs s)
           = calls s @ replicate (length errs) (trimObjectStrings ev \<lparr>code = c\<rparr>) \<and>
         calls (run ev [Change c', Submit] (rejectedSubmissions ev c errs s))
           = calls (rejectedSubmissions ev c errs s) @ [trimObjectStrings ev \<lparr>code = c'\<rparr>] \<and>
         isPending (run ev [Change c', Submit] (rejectedSubmissions ev c errs s)) \<and>
         (errs \<noteq> [] \<longrightarrow>
            fvalue (codeField (rejectedSubmissions ev c errs s)) = [] \<and>
            ferror (codeField (rejectedSubmissions ev c errs s)) = Some (invalidCode (LL ev))) \<and>
         (errs \<noteq> [] \<and> defaultValue (codeField s) = [] \<longrightarrow>
            codeField (rejectedSubmissions ev c errs s)
              = codeField (rejectedSubmission ev c err s))"
proof -
  have m: "mounted (rejectedSubmissions ev c errs s)"
    using assms(1,2) by (rule rejectedSubmissions_mounted)
  have k: "calls (rejectedSubmissions ev c errs s)
           = calls s @ replicate (length errs) (trimObjectStrings ev \<lparr>code = c\<rparr>)"
    using assms(1,2) by (rule rejectedSubmissions_calls)
  have f: "errs \<noteq> [] \<longrightarrow>
            fvalue (codeField (rejectedSubmissions ev c errs s)) = [] \<and>
            ferror (codeField (rejectedSubmissions ev c errs s)) = Some (invalidCode (LL ev))"
    using rejectedSubmissions_field [OF assms(1,2)] by blast
  have g: "errs \<noteq> [] \<and> defaultValue (codeField s) = [] \<longrightarrow>
            codeField (rejectedSubmissions ev c errs s)
              = codeField (rejectedSubmission ev c err s)"
  proof
    assume a: "errs \<noteq> [] \<and> defaultValue (codeField s) = []"
    then have e: "errs \<noteq> []" and d: "defaultValue (codeField s) = []" by simp_all
    have "codeField (rejectedSubmission ev c err s) =
       \<lparr>fvalue = [], defaultValue = [], ferror = Some (invalidCode (LL ev)),
        isDirty = True, isTouched = isTouched (codeField s)\<rparr>"
      using assms(2) d by (simp add: codeField_rejectedSubmission [OF assms(1,2)])
    with rejectedSubmissions_codeField [OF assms(1,2) d e, of ev]
    show "codeField (rejectedSubmissions ev c errs s)
              = codeField (rejectedSubmission ev c err s)"
      by simp
  qed
  from m k f g submit_forwarded(1) [OF m assms(3), of ev] submit_forwarded(2) [OF m assms(3), of ev]
  show ?thesis by blast
qed

theorem C6_rejections_never_lock_the_form_witness:
  "mounted started \<and> ''K7Q2'' \<noteq> [] \<and> ''M4N8'' \<noteq> [] \<and>
   [Invalid, Invalid, LockedOut] \<noteq> [] \<and> defaultValue (codeField started) = [] \<and>
   mounted (rejectedSubmissions sampleEnv ''K7Q2'' [Invalid, Invalid, LockedOut] started) \<and>
   isPending (run sampleEnv [Change ''M4N8'', Submit]
      (rejectedSubmissions sampleEnv ''K7Q2'' [Invalid, Invalid, LockedOut] started)) \<and>
   fvalue (codeField (rejectedSubmissions sampleEnv ''K7Q2'' [Invalid, Invalid, LockedOut] started))
     = [] \<and>
   ferror (codeField (rejectedSubmissions sampleEnv ''K7Q2'' [Invalid, Invalid, LockedOut] started))
     = Some (invalidCode (LL sampleEnv)) \<and>
   codeField (rejectedSubmissions sampleEnv ''K7Q2'' [Invalid, Invalid, LockedOut] started)
     = codeField (rejectedSubmission sampleEnv ''K7Q2'' AlreadyUsed started)"
proof -
  have m: "mounted started" and d: "defaultValue (codeField started) = []"
    by (simp_all add: component_defs)
  have c: "''K7Q2'' \<noteq> []" and c': "''M4N8'' \<noteq> []"
    and e: "[Invalid, Invalid, LockedOut] \<noteq> []"
    by simp_all
  from C6_rejections_never_lock_the_form
         [OF m c c', of sampleEnv "[Invalid, Invalid, LockedOut]" AlreadyUsed] m d e
  show ?thesis by blast
qed

text \<open>
  Claim C8, as stated: a submit while a round-trip is in flight fails with
  \<open>AlreadyInProgress\<close> and calls the verifier no second time.  \<open>handleValidSubmit\<close> calls
  \<open>mutate\<close> without looking at \<open>isPending\<close>: a second submit while the first call is
  outstanding makes a second call, both are outstanding, and the field has no error.
\<close>

theorem C8_second_submit_in_flight_counterexample:
  "isPending (run sampleEnv [Change ''K7Q2'', Submit] started) \<and>
   length (calls (run sampleEnv [Change ''K7Q2'', Submit] started)) = 1 \<and>
   length (calls (run sampleEnv [Change ''K7Q2'', Submit, Submit] started)) = 2 \<and>
   outstanding (run sampleEnv [Change ''K7Q2'', Submit, Submit] started) = [0, 1] \<and>
   ferror (codeField (run sampleEnv [Change ''K7Q2'', Submit, Submit] started)) = None"
  by (simp add: component_defs)

text \<open>
  Claim C8, amended: the component exposes the outstanding flag \<open>isPending\<close> (it passes it
  to the submit button as \<open>loading\<close>), and its submit handler does not consult it.  A submit
  of a non-empty code while a call is pending is forwarded to the verifier as one more
  call, which is outstanding beside the earlier ones; it sets no error, publishes nothing,
  and the flag stays set.
\<close>

theorem C8_submit_while_pending_is_forwarded:
  assumes "mounted s" and "isPending s" and "fvalue (codeField s) \<noteq> []"
  shows "calls (step ev Submit s)
           = calls s @ [trimObjectStrings ev \<lparr>code = fvalue (codeField s)\<rparr>] \<and>
         outstanding (step ev Submit s) = outstanding s @ [length (calls s)] \<and>
         ferror (codeField (step ev Submit s)) = None \<and>
         published (step ev Submit s) = published s \<and>
         isPending (step ev Submit s)"
  unfolding step_Submit_valid [OF assms(1,3)]
  by (simp add: mutate_def isPending_def)

theorem C8_submit_while_pending_is_forwarded_witness:
  "mounted (run sampleEnv [Change ''K7Q2'', Submit] started) \<and>
   isPending (run sampleEnv [Change ''K7Q2'', Submit] started) \<and>
   fvalue (codeField (run sampleEnv [Change ''K7Q2'', Submit] started)) \<noteq> [] \<and>
   outstanding (step sampleEnv Submit (run sampleEnv [Change ''K7Q2'', Submit] started)) = [0, 1] \<and>
   isPending (step sampleEnv Submit (run sampleEnv [Change ''K7Q2'', Submit] started))"
proof -
  have m: "mounted (run sampleEnv [Change ''K7Q2'', Submit] started)"
    and p: "isPending (run sampleEnv [Change ''K7Q2'', Submit] started)"
    and v: "fvalue (codeField (run sampleEnv [Change ''K7Q2'', Submit] started)) \<noteq> []"
    and o: "outstanding (run sampleEnv [Change ''K7Q2'', Submit] started) = [0]"
    and l: "length (calls (run sampleEnv [Change ''K7Q2'', Submit] started)) = 1"
    by (simp_all add: component_defs)
  from C8_submit_while_pending_is_forwarded [OF m p v, of sampleEnv] m p v show ?thesis
    unfolding o l by simp
qed

section \<open>Properties of the auth store\<close>

lemmas store_defs =
  resetState_def setState_def set_state_def setItem_def partialize_def pick_def
  throughJSON_def pageLoad_def firstLoad_def initialState_def loginSubject_def
  subscribe_def next_value_def storedKeys_def Let_def

lemma state_resetState:
  "state (resetState b) = (state b)(''user'' \<mapsto> Undefined, ''openIdParams'' \<mapsto> Undefined)"
  by (simp add: resetState_def set_state_def setItem_def)

lemma heap_resetState:
  "subjects (resetState b) = subjects b" "received (resetState b) = received b"
  by (simp_all add: resetState_def set_state_def setItem_def)

lemma loginSubject_resetState: "loginSubject (resetState b) = loginSubject b"
  by (simp add: loginSubject_def state_resetState heap_resetState
        split: option.splits jsval.splits)

lemma subscribe_Some:
  assumes "subscribe observer b0 = Some b"
  shows "\<exists>r. loginSubject b = Some r \<and> observer \<in> set (subjects b ! r)"
proof -
  from assms obtain r where r: "loginSubject b0 = Some r"
    and b: "b = b0\<lparr>subjects := (subjects b0)[r := subjects b0 ! r @ [observer]]\<rparr>"
    by (auto simp: subscribe_def split: option.splits)
  from r have lt: "r < length (subjects b0)"
    by (auto simp: loginSubject_def split: option.splits jsval.splits if_splits)
  from r have "loginSubject b = Some r"
    unfolding b by (auto simp: loginSubject_def split: option.splits jsval.splits if_splits)
  moreover from lt have "observer \<in> set (subjects b ! r)"
    unfolding b by simp
  ultimately show ?thesis by blast
qed

lemma next_value_delivers:
  assumes "loginSubject b = Some r"
  shows "next_value data b =
           Some (b\<lparr>received := received b @ map (\<lambda>observer. (observer, data)) (subjects b ! r)\<rparr>)"
  using assms by (simp add: next_value_def)

lemma partialize_apply:
  "partialize store k = (if k = ''user'' \<or> k = ''authLocation'' then store k else None)"
  by (simp add: partialize_def pick_def)

lemma dom_throughJSON: "dom (throughJSON object) \<subseteq> dom object"
  by (auto simp: throughJSON_def split: option.splits jsval.splits)

lemma storedKeys_setItem: "storedKeys (setItem b) \<subseteq> {''user'', ''authLocation''}"
proof -
  have "storedKeys (setItem b) = dom (throughJSON (partialize (state b)))"
    by (simp add: storedKeys_def setItem_def)
  also have "\<dots> \<subseteq> dom (partialize (state b))" by (rule dom_throughJSON)
  also have "\<dots> \<subseteq> {''user'', ''authLocation''}"
    by (auto simp: partialize_apply split: if_splits)
  finally show ?thesis .
qed

lemma storedKeys_apply_op:
  "storedKeys b \<subseteq> {''user'', ''authLocation''} \<Longrightarrow>
   storedKeys (apply_op x b) \<subseteq> {''user'', ''authLocation''}"
proof (cases x)
  case (SetState newState)
  then show ?thesis by (simp add: setState_def set_state_def storedKeys_setItem)
next
  case ResetState
  then show ?thesis by (simp add: resetState_def set_state_def storedKeys_setItem)
next
  case (Subscribe observer)
  assume "storedKeys b \<subseteq> {''user'', ''authLocation''}"
  then show ?thesis using Subscribe
    by (auto simp: storedKeys_def subscribe_def split: option.splits)
next
  case (Next data)
  assume "storedKeys b \<subseteq> {''user'', ''authLocation''}"
  then show ?thesis using Next
    by (auto simp: storedKeys_def next_value_def split: option.splits)
next
  case Reload
  assume "storedKeys b \<subseteq> {''user'', ''authLocation''}"
  then show ?thesis using Reload
    by (auto simp: storedKeys_def pageLoad_def Let_def split: option.splits)
qed

lemma storedKeys_apply_ops:
  "storedKeys b \<subseteq> {''user'', ''authLocation''} \<Longrightarrow>
   storedKeys (apply_ops ops b) \<subseteq> {''user'', ''authLocation''}"
  by (induction ops arbitrary: b) (simp_all add: storedKeys_apply_op)

lemma storedKeys_firstLoad: "storedKeys (firstLoad :: ('u, 'd) browser) = {}"
  by (simp add: storedKeys_def firstLoad_def pageLoad_def Let_def)

lemma pageLoad_hydrated:
  assumes "storedKeys b \<subseteq> {''user'', ''authLocation''}"
  shows "state (pageLoad b) ''openIdParams'' = Some Undefined"
    and "state (pageLoad b) ''loginSubject'' = Some (SubjectRef (length (subjects b)))"
proof -
  have n: "\<And>persisted. sessionStorage b ''auth-store'' = Some persisted \<Longrightarrow>
             persisted ''openIdParams'' = None \<and> persisted ''loginSubject'' = None"
  proof -
    fix persisted assume "sessionStorage b ''auth-store'' = Some persisted"
    with assms have "dom persisted \<subseteq> {''user'', ''authLocation''}"
      by (simp add: storedKeys_def)
    then have "''openIdParams'' \<notin> dom persisted" and "''loginSubject'' \<notin> dom persisted"
      by auto
    then show "persisted ''openIdParams'' = None \<and> persisted ''loginSubject'' = None"
      by (simp add: domIff)
  qed
  show "state (pageLoad b) ''openIdParams'' = Some Undefined"
    using n by (cases "sessionStorage b ''auth-store''")
      (simp_all add: pageLoad_def Let_def initialState_def map_add_def)
  show "state (pageLoad b) ''loginSubject'' = Some (SubjectRef (length (subjects b)))"
    using n by (cases "sessionStorage b ''auth-store''")
      (simp_all add: pageLoad_def Let_def initialState_def map_add_def)
qed

lemma subjects_pageLoad: "subjects (pageLoad b) = subjects b @ [[]]"
  by (simp add: pageLoad_def Let_def)

section \<open>The claims about the auth store\<close>

text \<open>
  Claim C9.  \<open>resetState\<close> sets the properties \<open>user\<close> and \<open>openIdParams\<close> of the state
  to \<open>undefined\<close> and leaves every other property as it was; \<open>loginSubject\<close> still refers
  to the same Subject, whose observers are untouched.  So an observer that subscribed
  before the reset receives what is published after it.
\<close>

theorem C9_resetState_frame:
  "state (resetState b) = (state b)(''user'' \<mapsto> Undefined, ''openIdParams'' \<mapsto> Undefined) \<and>
   (k \<noteq> ''user'' \<and> k \<noteq> ''openIdParams'' \<longrightarrow> state (resetState b) k = state b k) \<and>
   state (resetState b) ''loginSubject'' = state b ''loginSubject'' \<and>
   subjects (resetState b) = subjects b \<and>
   received (resetState b) = received b \<and>
   (subscribe observer b0 = Some b \<longrightarrow>
      (\<exists>b'. next_value data (resetState b) = Some b' \<and>
            (observer, data) \<in> set (received b') \<and>
            state b' = state (resetState b)))"
proof (intro conjI impI)
  show "state (resetState b) = (state b)(''user'' \<mapsto> Undefined, ''openIdParams'' \<mapsto> Undefined)"
    by (rule state_resetState)
  show "state (resetState b) ''loginSubject'' = state b ''loginSubject''"
    by (simp add: state_resetState)
  show "subjects (resetState b) = subjects b" by (rule heap_resetState)
  show "received (resetState b) = received b" by (rule heap_resetState)
next
  assume "k \<noteq> ''user'' \<and> k \<noteq> ''openIdParams''"
  then show "state (resetState b) k = state b k"
    by (simp add: state_resetState)
next
  assume "subscribe observer b0 = Some b"
  then obtain r where r: "loginSubject b = Some r" and o: "observer \<in> set (subjects b ! r)"
    using subscribe_Some by blast
  from r have r': "loginSubject (resetState b) = Some r"
    by (simp add: loginSubject_resetState)
  let ?b' = "(resetState b)\<lparr>received := received (resetState b)
               @ map (\<lambda>observer. (observer, data)) (subjects (resetState b) ! r)\<rparr>"
  have "next_value data (resetState b) = Some ?b'"
    using r' by (rule next_value_delivers)
  moreover have "(observer, data) \<in> set (received ?b')"
    using o by (simp add: heap_resetState)
  moreover have "state ?b' = state (resetState b)" by simp
  ultimately show "\<exists>b'. next_value data (resetState b) = Some b' \<and>
            (observer, data) \<in> set (received b') \<and> state b' = state (resetState b)"
    by blast
qed

theorem C9_resetState_frame_witness:
  "subscribe 7 (setState [''user'' \<mapsto> UserVal ''alice'',
                          ''openIdParams'' \<mapsto> ParamsVal [(''client_id'', ''app'')]]
                 (firstLoad :: (string, nat) browser))
     = Some ((setState [''user'' \<mapsto> UserVal ''alice'',
                        ''openIdParams'' \<mapsto> ParamsVal [(''client_id'', ''app'')]]
                 (firstLoad :: (string, nat) browser))\<lparr>subjects := [[7]]\<rparr>) \<and>
   ''loginSubject'' \<noteq> ''user'' \<and> ''loginSubject'' \<noteq> ''openIdParams'' \<and>
   state (resetState ((setState [''user'' \<mapsto> UserVal ''alice'',
                        ''openIdParams'' \<mapsto> ParamsVal [(''client_id'', ''app'')]]
                 (firstLoad :: (string, nat) browser))\<lparr>subjects := [[7]]\<rparr>)) ''loginSubject''
     = Some (SubjectRef 0) \<and>
   (\<exists>b'. next_value 10 (resetState ((setState [''user'' \<mapsto> UserVal ''alice'',
                        ''openIdParams'' \<mapsto> ParamsVal [(''client_id'', ''app'')]]
                 (firstLoad :: (string, nat) browser))\<lparr>subjects := [[7]]\<rparr>)) = Some b' \<and>
         (7, 10) \<in> set (received b'))"
proof -
  let ?b0 = "setState [''user'' \<mapsto> UserVal ''alice'',
                       ''openIdParams'' \<mapsto> ParamsVal [(''client_id'', ''app'')]]
               (firstLoad :: (string, nat) browser)"
  have h: "subscribe 7 ?b0 = Some (?b0\<lparr>subjects := [[7]]\<rparr>)"
    by (simp add: store_defs)
  have k: "''loginSubject'' \<noteq> ''user'' \<and> ''loginSubject'' \<noteq> ''openIdParams''"
    by simp
  have l: "state (?b0\<lparr>subjects := [[7]]\<rparr>) ''loginSubject'' = Some (SubjectRef 0)"
    by (simp add: store_defs)
  note T = C9_resetState_frame [of "?b0\<lparr>subjects := [[7]]\<rparr>" "''loginSubject''" 7 ?b0 10]
  from T k l have s: "state (resetState (?b0\<lparr>subjects := [[7]]\<rparr>)) ''loginSubject'' = Some (SubjectRef 0)"
    by simp
  from T h have "\<exists>b'. next_value 10 (resetState (?b0\<lparr>subjects := [[7]]\<rparr>)) = Some b' \<and>
         (7, 10) \<in> set (received b')"
    by blast
  with h k s show ?thesis by blast
qed

text \<open>
  Claim C10.  \<open>partialize\<close> lets through the properties \<open>user\<close> and \<open>authLocation\<close> and
  nothing else, so neither \<open>openIdParams\<close> nor \<open>loginSubject\<close> is written to
  sessionStorage.  Whatever was done with the store since the first load, the next page
  load gives a state whose \<open>openIdParams\<close> is \<open>undefined\<close> and whose \<open>loginSubject\<close> is a
  Subject that did not exist before and has no observer.
\<close>

theorem C10_only_user_and_authLocation_persisted:
  "partialize store k = (if k = ''user'' \<or> k = ''authLocation'' then store k else None) \<and>
   partialize store ''openIdParams'' = None \<and>
   partialize store ''loginSubject'' = None \<and>
   storedKeys (apply_ops ops firstLoad) \<subseteq> {''user'', ''authLocation''} \<and>
   state (pageLoad (apply_ops ops firstLoad)) ''openIdParams'' = Some Undefined \<and>
   loginSubject (pageLoad (apply_ops ops firstLoad))
     = Some (length (subjects (apply_ops ops firstLoad))) \<and>
   subjects (pageLoad (apply_ops ops firstLoad)) ! length (subjects (apply_ops ops firstLoad)) = []"
proof -
  let ?b = "apply_ops ops firstLoad"
  have k: "storedKeys ?b \<subseteq> {''user'', ''authLocation''}"
    by (rule storedKeys_apply_ops) (simp add: storedKeys_firstLoad)
  have s: "state (pageLoad ?b) ''loginSubject'' = Some (SubjectRef (length (subjects ?b)))"
    using k by (rule pageLoad_hydrated)
  have l: "loginSubject (pageLoad ?b) = Some (length (subjects ?b))"
    by (simp add: loginSubject_def s subjects_pageLoad)
  have e: "subjects (pageLoad ?b) ! length (subjects ?b) = []"
    by (simp add: subjects_pageLoad)
  from k l e pageLoad_hydrated(1) [OF k] show ?thesis
    by (simp add: partialize_apply)
qed

theorem C10_only_user_and_authLocation_persisted_witness:
  "state (apply_ops [SetState [''user'' \<mapsto> UserVal ''alice'',
                               ''openIdParams'' \<mapsto> ParamsVal [(''client_id'', ''app'')]],
                     Subscribe 7]
            (firstLoad :: (string, nat) browser)) ''openIdParams''
     = Some (ParamsVal [(''client_id'', ''app'')]) \<and>
   sessionStorage (apply_ops [SetState [''user'' \<mapsto> UserVal ''alice'',
                               ''openIdParams'' \<mapsto> ParamsVal [(''client_id'', ''app'')]],
                     Subscribe 7]
            (firstLoad :: (string, nat) browser)) ''auth-store''
     = Some [''user'' \<mapsto> UserVal ''alice''] \<and>
   state (pageLoad (apply_ops [SetState [''user'' \<mapsto> UserVal ''alice'',
                               ''openIdParams'' \<mapsto> ParamsVal [(''client_id'', ''app'')]],
                     Subscribe 7]
            (firstLoad :: (string, nat) browser))) ''openIdParams''
     = Some Undefined \<and>
   state (pageLoad (apply_ops [SetState [''user'' \<mapsto> UserVal ''alice'',
                               ''openIdParams'' \<mapsto> ParamsVal [(''client_id'', ''app'')]],
                     Subscribe 7]
            (firstLoad :: (string, nat) browser))) ''user''
     = Some (UserVal ''alice'') \<and>
   loginSubject (pageLoad (apply_ops [SetState [''user'' \<mapsto> UserVal ''alice'',
                               ''openIdParams'' \<mapsto> ParamsVal [(''client_id'', ''app'')]],
                     Subscribe 7]
            (firstLoad :: (string, nat) browser))) = Some 1"
proof -
  let ?b = "apply_ops [SetState [''user'' \<mapsto> UserVal ''alice'',
                                 ''openIdParams'' \<mapsto> ParamsVal [(''client_id'', ''app'')]],
                       Subscribe 7]
              (firstLoad :: (string, nat) browser)"
  have p: "state ?b ''openIdParams'' = Some (ParamsVal [(''client_id'', ''app'')])"
    by (simp add: store_defs)
  have st: "sessionStorage ?b ''auth-store'' = Some [''user'' \<mapsto> UserVal ''alice'']"
    by (auto simp: store_defs)
  have u: "state (pageLoad ?b) ''user'' = Some (UserVal ''alice'')"
    unfolding pageLoad_def Let_def st by (simp add: initialState_def)
  have n: "length (subjects ?b) = 1"
    by (simp add: store_defs)
  note T = C10_only_user_and_authLocation_persisted
             [of _ _ "[SetState [''user'' \<mapsto> UserVal ''alice'',
                                 ''openIdParams'' \<mapsto> ParamsVal [(''client_id'', ''app'')]],
                       Subscribe 7] :: (string, nat) store_op list"]
  from T have "state (pageLoad ?b) ''openIdParams'' = Some Undefined"
    and "loginSubject (pageLoad ?b) = Some (length (subjects ?b))"
    by blast+
  with p st u n show ?thesis by simp
qed

end
